theory Spec2Isabelle
  imports Main "HOL-Library.AList"
begin

section \<open>Values, errors and effects\<close>

text \<open>
  The bridge moves JSON values between the sync log and the storage layer. Only the
  shapes the two channels use are modelled: null (Python's \<open>None\<close>), booleans,
  integers and strings.
\<close>

datatype json = JNull | JBool bool | JInt int | JStr string

text \<open>
  Python's \<open>==\<close> on these values: a boolean is an integer (\<open>True == 1\<close>), every other
  pair of different shapes is unequal.
\<close>

fun py_eq :: "json \<Rightarrow> json \<Rightarrow> bool" where
  "py_eq (JBool b) (JInt i) = (i = (if b then 1 else 0))"
| "py_eq (JInt i) (JBool b) = (i = (if b then 1 else 0))"
| "py_eq x y = (x = y)"

text \<open>
  One constructor for each \<open>raise\<close> of the source, carrying what the message is built
  from; \<open>TypeError\<close> is the failure of \<open>"..." + x\<close> when \<open>x\<close> is not a string,
  \<open>IndexError\<close> that of \<open>attributes[-1]\<close> on an empty list, and \<open>Collaborator\<close> is any
  exception thrown by the storage backend, the item parser or the sync-log library.
\<close>

datatype error =
    Unknown_info_key string
  | Invalid_path "string list"
  | Unknown_sync_type string
  | Unknown_tag string
  | Invalid_number_of_attributes
  | TypeError
  | IndexError
  | Collaborator string

text \<open>
  The calls the bridge makes on its collaborators, in the order it makes them: an atomic
  write of the mapping file (path and dumped dictionary), an append to the sync log
  (\<open>decsync.set_entry(path, key, value)\<close>), and the three mutations of the underlying
  storage collection (\<open>super().upload\<close>, \<open>super().delete\<close>, \<open>super().set_meta_all\<close>).
\<close>

datatype event =
    Atomic_write string "(string \<times> string) list"
  | Set_entry "string list" json json
  | Base_upload string
  | Base_delete "string option"
  | Base_set_meta_all "(string \<times> json) list"

fun is_set_entry :: "event \<Rightarrow> bool" where
  "is_set_entry (Set_entry p k v) = True"
| "is_set_entry e = False"

fun is_base_mutation :: "event \<Rightarrow> bool" where
  "is_base_mutation (Base_upload h) = True"
| "is_base_mutation (Base_delete h) = True"
| "is_base_mutation (Base_set_meta_all p) = True"
| "is_base_mutation e = False"

section \<open>Strings and paths\<close>

text \<open>\<open>s.strip("/")\<close>, \<open>s.split("/")\<close>, \<open>"/".join(xs)\<close> and \<open>s[:-n]\<close> of Python.\<close>

definition py_strip :: "char \<Rightarrow> string \<Rightarrow> string" where
  "py_strip c s = rev (dropWhile (\<lambda>x. x = c) (rev (dropWhile (\<lambda>x. x = c) s)))"

fun py_split :: "char \<Rightarrow> string \<Rightarrow> string list" where
  "py_split c [] = [[]]"
| "py_split c (x # xs) =
     (if x = c then [] # py_split c xs
      else (case py_split c xs of [] \<Rightarrow> [[x]] | w # ws \<Rightarrow> (x # w) # ws))"

fun py_join :: "string \<Rightarrow> string list \<Rightarrow> string" where
  "py_join sep [] = []"
| "py_join sep [x] = x"
| "py_join sep (x # y # ys) = x @ sep @ py_join sep (y # ys)"

text \<open>
  \<open>s[:-n]\<close>: the slice ends \<open>n\<close> characters before the end, at the start when the string
  is shorter; \<open>-0\<close> is \<open>0\<close>, so \<open>s[:-0]\<close> is empty.
\<close>

definition py_drop_last :: "nat \<Rightarrow> string \<Rightarrow> string" where
  "py_drop_last n s = (if n = 0 then [] else take (length s - n) s)"

text \<open>\<open>os.path.join(a, b)\<close> for a relative \<open>b\<close>.\<close>

definition os_path_join :: "string \<Rightarrow> string \<Rightarrow> string" where
  "os_path_join a b = (if a = [] \<or> last a = CHR ''/'' then a @ b else a @ ''/'' @ b)"

text \<open>
  \<open>_get_attributes_from_path\<close>; \<open>storage.sanitize_path\<close> belongs to the storage
  library and is a parameter. \<open>split\<close> never returns an empty list, so \<open>attributes[0]\<close>
  exists; \<open>pop()\<close> removes the last element.
\<close>

definition get_attributes_from_path :: "(string \<Rightarrow> string) \<Rightarrow> string \<Rightarrow> string list" where
  "get_attributes_from_path sanitize_path p =
     (let sane_path = py_strip CHR ''/'' (sanitize_path p);
          attributes = py_split CHR ''/'' sane_path
      in if hd attributes = [] then butlast attributes else attributes)"

section \<open>The collection and its identifier mapping\<close>

text \<open>
  A collection that is backed by a sync log (its path has two attributes, so that
  \<open>__init__\<close> created the \<open>Decsync\<close> object and loaded the mapping). Python dictionaries
  are association lists updated with \<open>AList.update\<close> (an existing key keeps its place, a
  new one goes last) and read with \<open>map_of\<close>. \<open>store\<close> is the state of the underlying
  storage collection, \<open>files\<close> the mapping files on disk (a missing or unreadable file is
  \<open>None\<close>) and \<open>events\<close> the calls made so far.
\<close>

record 's collection =
  filesystem_path :: string
  sync_type :: string
  decsync_collection :: string
  suffix :: string
  hrefs_path :: string
  hrefs :: "(string \<times> string) list"
  uids :: "(string \<times> string) list"
  store :: 's
  files :: "string \<rightharpoonup> (string \<times> string) list"
  events :: "event list"

text \<open>\<open>json.load\<close> of an object: members are stored in document order, a repeated key
  keeps its first place and takes the last value.\<close>

definition json_load :: "(string \<times> string) list \<Rightarrow> (string \<times> string) list" where
  "json_load members = fold (\<lambda>(k, v) d. AList.update k v d) members []"

definition load_hrefs :: "string \<Rightarrow> 's collection \<Rightarrow> 's collection" where
  "load_hrefs stype c =
     (let c1 = c\<lparr>suffix := (if stype = ''contacts'' then ''.vcf'' else ''.ics'')\<rparr>;
          c2 = c1\<lparr>hrefs_path := os_path_join (filesystem_path c1) ''.Radicale.hrefs''\<rparr>;
          c3 = c2\<lparr>hrefs := (case files c2 (hrefs_path c2) of
                                Some members \<Rightarrow> json_load members
                              | None \<Rightarrow> [])\<rparr>;
          c4 = c3\<lparr>uids := []\<rparr>
      in fold (\<lambda>(uid, href) d. d\<lparr>uids := AList.update href uid (uids d)\<rparr>) (hrefs c4) c4)"

definition get_href :: "'s collection \<Rightarrow> string \<Rightarrow> string" where
  "get_href c uid = (case map_of (hrefs c) uid of Some href \<Rightarrow> href | None \<Rightarrow> uid @ suffix c)"

definition atomic_write_hrefs :: "'s collection \<Rightarrow> 's collection" where
  "atomic_write_hrefs c =
     c\<lparr>files := (files c)(hrefs_path c \<mapsto> hrefs c),
       events := events c @ [Atomic_write (hrefs_path c) (hrefs c)]\<rparr>"

definition set_href :: "string \<Rightarrow> string \<Rightarrow> 's collection \<Rightarrow> 's collection" where
  "set_href uid href c =
     (if href = get_href c uid then c
      else
        let c1 = c\<lparr>hrefs := AList.update uid href (hrefs c)\<rparr>;
            c2 = c1\<lparr>uids := AList.update href uid (uids c1)\<rparr>
        in atomic_write_hrefs c2)"

definition get_uid :: "'s collection \<Rightarrow> string \<Rightarrow> string" where
  "get_uid c href =
     (case map_of (uids c) href of
        Some uid \<Rightarrow> uid
      | None \<Rightarrow> py_drop_last (length (suffix c)) href)"

text \<open>
  \<open>Collection.__init__\<close>: the object the base class constructs (no table loaded yet),
  then, for a path of two attributes, the sync type and the collection identifier cut
  out of the second attribute, and \<open>load_hrefs\<close>. A path of any other length gives a
  plain storage collection with no sync state, which is not modelled (\<open>None\<close>).
\<close>

definition new_collection ::
  "string \<Rightarrow> 's \<Rightarrow> (string \<rightharpoonup> (string \<times> string) list) \<Rightarrow> 's collection" where
  "new_collection fs_path s fls =
     \<lparr>filesystem_path = fs_path, sync_type = [], decsync_collection = [], suffix = [],
      hrefs_path = [], hrefs = [], uids = [], store = s, files = fls, events = []\<rparr>"

definition init_collection ::
  "(string \<Rightarrow> string) \<Rightarrow> string \<Rightarrow> string \<Rightarrow> 's \<Rightarrow>
   (string \<rightharpoonup> (string \<times> string) list) \<Rightarrow> 's collection option" where
  "init_collection sanitize_path p fs_path s fls =
     (let attributes = get_attributes_from_path sanitize_path p
      in if length attributes = 2 then
           let stype = hd (py_split CHR ''-'' (attributes ! 1));
               coll = drop (length stype + 1) (attributes ! 1)
           in Some (load_hrefs stype
                ((new_collection fs_path s fls)\<lparr>sync_type := stype, decsync_collection := coll\<rparr>))
         else None)"

text \<open>A sequence of \<open>set_href\<close> calls, given as (uid, href) pairs, oldest first.\<close>

fun set_hrefs :: "(string \<times> string) list \<Rightarrow> 's collection \<Rightarrow> 's collection" where
  "set_hrefs [] c = c"
| "set_hrefs ((uid, href) # calls) c = set_hrefs calls (set_href uid href c)"

section \<open>The storage backend and the mutation operations\<close>

text \<open>
  The underlying storage collection (\<open>storage.Collection\<close>), the item parser
  (\<open>vobject.readOne\<close>) and the item check (\<open>storage.check_and_sanitize_item\<close>) are
  libraries the bridge calls: they are parameters, collected in one record. \<open>'s\<close> is
  the state of the storage collection, \<open>'v\<close> a parsed item, \<open>'i\<close> a stored item. The
  mutating calls return their result, or the exception they raise, with the new state;
  the reads (\<open>get\<close>, \<open>get_meta\<close>) do not change it. The storage library works on its own
  state only: it neither appends to the sync log nor touches the identifier mapping.
\<close>

record ('s, 'v, 'i) backend =
  read_one :: "json \<Rightarrow> error + 'v"
  check_and_sanitize_item :: "'v \<Rightarrow> string \<Rightarrow> string \<Rightarrow> error + 'v"
  base_get :: "string \<Rightarrow> 's \<Rightarrow> 'i option"
  base_upload :: "string \<Rightarrow> 'v \<Rightarrow> 's \<Rightarrow> (error + 'i) \<times> 's"
  base_delete :: "string option \<Rightarrow> 's \<Rightarrow> (error + unit) \<times> 's"
  base_set_meta_all :: "(string \<times> json) list \<Rightarrow> 's \<Rightarrow> (error + unit) \<times> 's"
  base_get_meta :: "'s \<Rightarrow> (string \<times> json) list"
  base_get_meta_key :: "string \<Rightarrow> 's \<Rightarrow> json"
  item_uid :: "'i \<Rightarrow> string"
  item_serialize :: "'i \<Rightarrow> string"

text \<open>
  An operation that can raise returns the exception or its value, together with the
  state reached: an exception leaves the mutations made before it in place.
\<close>

definition and_then ::
  "(error + 'a) \<times> 'w \<Rightarrow> ('a \<Rightarrow> 'w \<Rightarrow> (error + 'b) \<times> 'w) \<Rightarrow> (error + 'b) \<times> 'w" where
  "and_then r f = (case r of (Inl e, w) \<Rightarrow> (Inl e, w) | (Inr a, w) \<Rightarrow> f a w)"

definition set_entry :: "string list \<Rightarrow> json \<Rightarrow> json \<Rightarrow> 's collection \<Rightarrow> 's collection" where
  "set_entry p k v c = c\<lparr>events := events c @ [Set_entry p k v]\<rparr>"

definition base_call ::
  "event \<Rightarrow> ('s \<Rightarrow> (error + 'a) \<times> 's) \<Rightarrow> 's collection \<Rightarrow> (error + 'a) \<times> 's collection" where
  "base_call ev f c =
     (case f (store c) of (r, s1) \<Rightarrow> (r, c\<lparr>store := s1, events := events c @ [ev]\<rparr>))"

definition upload ::
  "('s, 'v, 'i) backend \<Rightarrow> string \<Rightarrow> 'v \<Rightarrow> bool \<Rightarrow> 's collection \<Rightarrow> (error + 'i) \<times> 's collection" where
  "upload B href vobject_item update_decsync c =
     and_then (base_call (Base_upload href) (base_upload B href vobject_item) c)
       (\<lambda>item c1.
          if update_decsync then
            let c2 = set_href (item_uid B item) href c1;
                c3 = set_entry [''resources'', item_uid B item] JNull
                       (JStr (item_serialize B item)) c2
            in (Inr item, c3)
          else (Inr item, c1))"

definition delete ::
  "('s, 'v, 'i) backend \<Rightarrow> string option \<Rightarrow> bool \<Rightarrow> 's collection \<Rightarrow> (error + unit) \<times> 's collection" where
  "delete B href update_decsync c =
     (let c1 = (if update_decsync then
                  (case href of
                     None \<Rightarrow> set_entry [''info''] (JStr ''deleted'') (JBool True) c
                   | Some h \<Rightarrow> set_entry [''resources'', get_uid c h] JNull JNull c)
                else c)
      in base_call (Base_delete href) (base_delete B href) c1)"

text \<open>The body of the loop of \<open>set_meta_all\<close>, for one item of \<open>props.items()\<close>.\<close>

definition forward_meta ::
  "('s, 'v, 'i) backend \<Rightarrow> string \<times> json \<Rightarrow> 's collection \<Rightarrow> 's collection" where
  "forward_meta B kv c =
     (case kv of (key, val) \<Rightarrow>
        if py_eq (base_get_meta_key B key (store c)) val then c
        else if key = ''D:displayname'' then set_entry [''info''] (JStr ''name'') val c
        else if key = ''ICAL:calendar-color'' then set_entry [''info''] (JStr ''color'') val c
        else c)"

definition set_meta_all ::
  "('s, 'v, 'i) backend \<Rightarrow> (string \<times> json) list \<Rightarrow> bool \<Rightarrow> 's collection \<Rightarrow>
   (error + unit) \<times> 's collection" where
  "set_meta_all B props update_decsync c =
     (let c1 = (if update_decsync then fold (forward_meta B) props c else c)
      in base_call (Base_set_meta_all props) (base_set_meta_all B props) c1)"

definition set_meta_key ::
  "('s, 'v, 'i) backend \<Rightarrow> string \<Rightarrow> json \<Rightarrow> bool \<Rightarrow> 's collection \<Rightarrow>
   (error + unit) \<times> 's collection" where
  "set_meta_key B key val update_decsync c =
     (let props = base_get_meta B (store c);
          props1 = AList.update key val props
      in set_meta_all B props1 update_decsync c)"

section \<open>The listeners\<close>

text \<open>
  The two closures \<open>__init__\<close> registers. \<open>extra\<close> is the collection the entries are
  applied to; the \<open>sync_type\<close> the resources listener reads is the one \<open>__init__\<close>
  derived for that collection. A key that is not a string is unequal to every name, and
  \<open>"Unknown info key " + key\<close> then fails with a \<open>TypeError\<close>.
\<close>

definition info_listener ::
  "('s, 'v, 'i) backend \<Rightarrow> string list \<Rightarrow> string \<Rightarrow> json \<Rightarrow> json \<Rightarrow> 's collection \<Rightarrow>
   (error + unit) \<times> 's collection" where
  "info_listener B p datetime key val extra =
     (if key = JStr ''name'' then set_meta_key B ''D:displayname'' val False extra
      else if key = JStr ''deleted'' then delete B None False extra
      else if key = JStr ''color'' then set_meta_key B ''ICAL:calendar-color'' val False extra
      else (Inl (case key of JStr k \<Rightarrow> Unknown_info_key k | _ \<Rightarrow> TypeError), extra))"

definition resources_listener ::
  "('s, 'v, 'i) backend \<Rightarrow> string list \<Rightarrow> string \<Rightarrow> json \<Rightarrow> json \<Rightarrow> 's collection \<Rightarrow>
   (error + unit) \<times> 's collection" where
  "resources_listener B p datetime key val extra =
     (if length p \<noteq> 1 then (Inl (Invalid_path p), extra)
      else
        let uid = hd p;
            href = get_href extra uid
        in if val = JNull then
             (if base_get B href (store extra) \<noteq> None then delete B (Some href) False extra
              else (Inr (), extra))
           else
             (case read_one B val of
                Inl e \<Rightarrow> (Inl e, extra)
              | Inr item \<Rightarrow>
                  (case (if sync_type extra = ''contacts'' then Inr ''VADDRESSBOOK''
                         else if sync_type extra = ''calendars'' then Inr ''VCALENDAR''
                         else Inl (Unknown_sync_type (sync_type extra))) of
                     Inl e \<Rightarrow> (Inl e, extra)
                   | Inr tag \<Rightarrow>
                       (case check_and_sanitize_item B item uid tag of
                          Inl e \<Rightarrow> (Inl e, extra)
                        | Inr item1 \<Rightarrow>
                            and_then (upload B href item1 False extra)
                              (\<lambda>stored c1. (Inr (), c1))))))"

text \<open>The sync-log entries appended so far, and the events one operation added.\<close>

definition sync_log :: "'s collection \<Rightarrow> event list" where
  "sync_log c = filter is_set_entry (events c)"

definition new_events :: "'s collection \<Rightarrow> 's collection \<Rightarrow> event list" where
  "new_events c c1 = drop (length (events c)) (events c1)"

section \<open>Discovery and creation of collections\<close>

text \<open>
  The class methods work on the whole storage and on the sync-log directory; both
  belong to the libraries, so the calls are parameters again. \<open>'w\<close> is the state of
  the storage and of the sync-log directory, \<open>'c\<close> a collection object, \<open>'x\<close> the items
  handed to \<open>create_collection\<close>. \<open>decsync_dir\<close> is the class attribute \<open>static_init\<close>
  sets once.
\<close>

record ('w, 'c, 'x) site =
  sanitize_path :: "string \<Rightarrow> string"
  decsync_dir :: string
  base_discover :: "string \<Rightarrow> string \<Rightarrow> 'w \<Rightarrow> (error + 'c list) \<times> 'w"
  collection_path :: "'c \<Rightarrow> string"
  list_collections :: "string \<Rightarrow> string \<Rightarrow> 'w \<Rightarrow> string list"
  get_static_info :: "string \<Rightarrow> string \<Rightarrow> string \<Rightarrow> string \<Rightarrow> 'w \<Rightarrow> json"
  base_create_collection ::
    "string \<Rightarrow> 'x option \<Rightarrow> (string \<times> json) list option \<Rightarrow> 'w \<Rightarrow> (error + 'c) \<times> 'w"
  init_stored_entries :: "'c \<Rightarrow> 'w \<Rightarrow> (error + unit) \<times> 'w"
  execute_stored_entries_for_path :: "string list \<Rightarrow> 'c \<Rightarrow> 'w \<Rightarrow> (error + unit) \<times> 'w"

text \<open>The properties \<open>discover\<close> gives a new child of a sync type.\<close>

definition child_props :: "string \<Rightarrow> error + (string \<times> json) list" where
  "child_props stype =
     (if stype = ''contacts'' then Inr [(''tag'', JStr ''VADDRESSBOOK'')]
      else if stype = ''calendars'' then
        Inr [(''tag'', JStr ''VCALENDAR''),
             (''C:supported-calendar-component-set'', JStr ''VEVENT'')]
      else Inl (Unknown_sync_type stype))"

text \<open>
  The body of the inner loop of \<open>discover\<close>, for one advertised collection: \<open>None\<close> is
  \<open>continue\<close>, \<open>Some child\<close> the child it yields.
\<close>

definition discover_child ::
  "('w, 'c, 'x) site \<Rightarrow> string \<Rightarrow> string list \<Rightarrow> string \<Rightarrow> string \<Rightarrow> 'w \<Rightarrow>
   (error + 'c option) \<times> 'w" where
  "discover_child S p known_paths stype coll w =
     (let child_path = py_strip CHR ''/'' (sanitize_path S (p @ ''/'' @ stype @ ''-'' @ coll))
      in if child_path \<in> set known_paths then (Inr None, w)
         else if py_eq (get_static_info S (decsync_dir S) stype coll ''deleted'' w) (JBool True)
         then (Inr None, w)
         else
           (case child_props stype of
              Inl e \<Rightarrow> (Inl e, w)
            | Inr props \<Rightarrow>
                and_then (base_create_collection S child_path None (Some props) w) (\<lambda>child w1.
                and_then (init_stored_entries S child w1) (\<lambda>u w2.
                and_then (execute_stored_entries_for_path S [''info''] child w2) (\<lambda>u w3.
                and_then (execute_stored_entries_for_path S [''resources''] child w3) (\<lambda>u w4.
                (Inr (Some child), w4)))))))"

text \<open>
  The inner loop. A generator that raises has already handed over what it yielded, so
  the result is the children yielded, the exception if one ended the loop, and the state.
  Each child is paired with the sync type and the identifier it was created for.
\<close>

fun discover_collections ::
  "('w, 'c, 'x) site \<Rightarrow> string \<Rightarrow> string list \<Rightarrow> string \<Rightarrow> string list \<Rightarrow> 'w \<Rightarrow>
   ((string \<times> string) \<times> 'c) list \<times> error option \<times> 'w" where
  "discover_collections S p known_paths stype [] w = ([], None, w)"
| "discover_collections S p known_paths stype (coll # colls) w =
     (case discover_child S p known_paths stype coll w of
        (Inl e, w1) \<Rightarrow> ([], Some e, w1)
      | (Inr None, w1) \<Rightarrow> discover_collections S p known_paths stype colls w1
      | (Inr (Some child), w1) \<Rightarrow>
          (case discover_collections S p known_paths stype colls w1 of
             (children, err, w2) \<Rightarrow> (((stype, coll), child) # children, err, w2)))"

text \<open>The outer loop, over the sync types; each list of collections is read when its
  turn comes.\<close>

fun discover_sync_types ::
  "('w, 'c, 'x) site \<Rightarrow> string \<Rightarrow> string list \<Rightarrow> string list \<Rightarrow> 'w \<Rightarrow>
   ((string \<times> string) \<times> 'c) list \<times> error option \<times> 'w" where
  "discover_sync_types S p known_paths [] w = ([], None, w)"
| "discover_sync_types S p known_paths (stype # stypes) w =
     (case discover_collections S p known_paths stype
             (list_collections S (decsync_dir S) stype w) w of
        (children, Some e, w1) \<Rightarrow> (children, Some e, w1)
      | (children, None, w1) \<Rightarrow>
          (case discover_sync_types S p known_paths stypes w1 of
             (children1, err, w2) \<Rightarrow> (children @ children1, err, w2)))"

text \<open>What \<open>discover\<close> does after it has yielded the local collections.\<close>

definition discover_remote ::
  "('w, 'c, 'x) site \<Rightarrow> string \<Rightarrow> string \<Rightarrow> string list \<Rightarrow> 'w \<Rightarrow>
   ((string \<times> string) \<times> 'c) list \<times> error option \<times> 'w" where
  "discover_remote S p depth known_paths w =
     (if depth = ''0'' then ([], None, w)
      else
        let attributes = get_attributes_from_path (sanitize_path S) p
        in if length attributes = 0 then ([], None, w)
           else if length attributes = 1 then
             discover_sync_types S p known_paths [''contacts'', ''calendars''] w
           else if length attributes = 2 then ([], None, w)
           else ([], Some Invalid_number_of_attributes, w))"

text \<open>
  \<open>discover\<close>: the local collections, which it yields first, then the new children in
  the order it yields them, the exception if one ended the generator, and the state.
\<close>

definition discover ::
  "('w, 'c, 'x) site \<Rightarrow> string \<Rightarrow> string \<Rightarrow> 'w \<Rightarrow>
   'c list \<times> ((string \<times> string) \<times> 'c) list \<times> error option \<times> 'w" where
  "discover S p depth w =
     (case base_discover S p depth w of
        (Inl e, w1) \<Rightarrow> ([], [], Some e, w1)
      | (Inr collections, w1) \<Rightarrow>
          (case discover_remote S p depth (map (collection_path S) collections) w1 of
             (children, err, w2) \<Rightarrow> (collections, children, err, w2)))"

text \<open>
  \<open>create_collection\<close>. \<open>props.get("tag")\<close> is \<open>None\<close> for a missing key, and
  \<open>"Unknown tag " + None\<close> a \<open>TypeError\<close>; \<open>attributes[-1]\<close> of the root path fails.
\<close>

definition create_collection ::
  "('w, 'c, 'x) site \<Rightarrow> string \<Rightarrow> 'x option \<Rightarrow> (string \<times> json) list option \<Rightarrow> 'w \<Rightarrow>
   (error + 'c) \<times> 'w" where
  "create_collection S href items props w =
     (case props of
        None \<Rightarrow> base_create_collection S href items props w
      | Some ps \<Rightarrow>
          (case (if map_of ps ''tag'' = Some (JStr ''VADDRESSBOOK'') then Inr ''contacts''
                 else if map_of ps ''tag'' = Some (JStr ''VCALENDAR'') then Inr ''calendars''
                 else Inl (case map_of ps ''tag'' of
                             Some (JStr t) \<Rightarrow> Unknown_tag t
                           | _ \<Rightarrow> TypeError)) of
             Inl e \<Rightarrow> (Inl e, w)
           | Inr stype \<Rightarrow>
               let attributes = get_attributes_from_path (sanitize_path S) href
               in if attributes = [] then (Inl IndexError, w)
                  else
                    let attributes1 = butlast attributes @ [stype @ ''-'' @ last attributes];
                        path1 = py_join ''/'' attributes1
                    in base_create_collection S path1 items props w))"

section \<open>Properties of runs\<close>

text \<open>
  A \<open>set_href\<close> call is fresh when it asks for what \<open>get_href\<close> already answers, or
  when it names a uid with no stored href and an href with no stored uid; a sequence of
  calls is fresh when each call is, in the state the calls before it have left.
\<close>

definition fresh_call :: "'s collection \<Rightarrow> string \<Rightarrow> string \<Rightarrow> bool" where
  "fresh_call c uid href =
     (href = get_href c uid \<or> (map_of (hrefs c) uid = None \<and> map_of (uids c) href = None))"

fun fresh_calls :: "(string \<times> string) list \<Rightarrow> 's collection \<Rightarrow> bool" where
  "fresh_calls [] c = True"
| "fresh_calls ((uid, href) # calls) c =
     (fresh_call c uid href \<and> fresh_calls calls (set_href uid href c))"

text \<open>The two tables are inverse to each other on what they store.\<close>

definition mutually_inverse :: "'s collection \<Rightarrow> bool" where
  "mutually_inverse c =
     (\<forall>uid href. (map_of (hrefs c) uid = Some href) = (map_of (uids c) href = Some uid))"

text \<open>Every href the forward table stores has an entry in the reverse table.\<close>

definition reverse_covers :: "'s collection \<Rightarrow> bool" where
  "reverse_covers c = (\<forall>uid href. map_of (hrefs c) uid \<noteq> Some href \<or> map_of (uids c) href \<noteq> None)"

text \<open>The dictionary \<open>load_hrefs\<close> reads for a collection.\<close>

definition loaded_dict :: "'s collection \<Rightarrow> (string \<times> string) list" where
  "loaded_dict c =
     (case files c (os_path_join (filesystem_path c) ''.Radicale.hrefs'') of
        Some members \<Rightarrow> json_load members
      | None \<Rightarrow> [])"

text \<open>
  In a list of events, no sync-log append stands before the first mutation of the
  underlying storage.
\<close>

definition forwarded_after_mutation :: "event list \<Rightarrow> bool" where
  "forwarded_after_mutation evs =
     list_all (\<lambda>e. is_set_entry e = False) (takeWhile (\<lambda>e. is_base_mutation e = False) evs)"

section \<open>A small instance\<close>

text \<open>
  An in-memory backend on which the model can be run: the storage state is the
  dictionary of stored items (href to uid and text) and the properties; an item is read
  from a text \<open>uid:...\<close>; deleting an item that is not stored raises, as the storage
  library does.
\<close>

type_synonym toy_store = "(string \<times> (string \<times> string)) list \<times> (string \<times> json) list"

definition toy_backend :: "(toy_store, string \<times> string, string \<times> string) backend" where
  "toy_backend =
     \<lparr>read_one = (\<lambda>v. case v of
                     JStr t \<Rightarrow> Inr (takeWhile (\<lambda>x. x \<noteq> CHR '':'') t, t)
                   | _ \<Rightarrow> Inl (Collaborator ''ParseError'')),
      check_and_sanitize_item = (\<lambda>item uid tag.
         if fst item = uid then Inr item else Inl (Collaborator ''ValueError'')),
      base_get = (\<lambda>href s. map_of (fst s) href),
      base_upload = (\<lambda>href item s. (Inr item, (AList.update href item (fst s), snd s))),
      base_delete = (\<lambda>href s. case href of
                       None \<Rightarrow> (Inr (), ([], []))
                     | Some h \<Rightarrow>
                         if map_of (fst s) h = None
                         then (Inl (Collaborator ''ComponentNotFoundError''), s)
                         else (Inr (), (AList.delete h (fst s), snd s))),
      base_set_meta_all = (\<lambda>props s. (Inr (), (fst s, props))),
      base_get_meta = snd,
      base_get_meta_key = (\<lambda>key s. case map_of (snd s) key of Some v \<Rightarrow> v | None \<Rightarrow> JNull),
      item_uid = fst,
      item_serialize = snd\<rparr>"

text \<open>
  A calendar collection with an empty store: as the base class constructs it, and after
  \<open>load_hrefs\<close> found no mapping file.
\<close>

definition toy_blank :: "toy_store collection" where
  "toy_blank =
     (new_collection ''/srv/user/calendars-work'' ([], []) Map.empty)
       \<lparr>sync_type := ''calendars'', decsync_collection := ''work''\<rparr>"

definition toy_collection :: "toy_store collection" where
  "toy_collection = load_hrefs ''calendars'' toy_blank"

text \<open>
  A site whose state is the list of local collection paths. The sync log advertises the
  address books \<open>friends\<close> and \<open>old\<close> and the calendar \<open>work\<close>; \<open>old\<close> is marked deleted.
\<close>

definition toy_site :: "(string list, string, unit) site" where
  "toy_site =
     \<lparr>sanitize_path = (\<lambda>p. p),
      decsync_dir = ''/decsync'',
      base_discover = (\<lambda>p depth w. (Inr w, w)),
      collection_path = (\<lambda>c. c),
      list_collections = (\<lambda>dir stype w.
         if stype = ''contacts'' then [''friends'', ''old''] else [''work'']),
      get_static_info = (\<lambda>dir stype coll key w.
         if stype = ''contacts'' \<and> coll = ''old'' \<and> key = ''deleted'' then JBool True else JNull),
      base_create_collection = (\<lambda>p items props w. (Inr p, w @ [p])),
      init_stored_entries = (\<lambda>c w. (Inr (), w)),
      execute_stored_entries_for_path = (\<lambda>p c w. (Inr (), w))\<rparr>"

section \<open>The identifier mapping: loading and updating\<close>

subsection \<open>Loading\<close>

lemma fold_uids_update:
  "fold (\<lambda>(uid, href) d. d\<lparr>uids := AList.update href uid (uids d)\<rparr>) xs c =
   c\<lparr>uids := fold (\<lambda>(uid, href) u. AList.update href uid u) xs (uids c)\<rparr>"
  by (induction xs arbitrary: c) auto

lemma map_of_fold_update:
  "map_of (fold (\<lambda>(uid, href) u. AList.update href uid u) xs d) =
   map_of d ++ map_of (rev (map (\<lambda>(uid, href). (href, uid)) xs))"
  by (induction xs arbitrary: d)
    (auto simp: AList.update_conv' map_add_def fun_eq_iff split: option.splits)

lemma distinct_fst_fold_update:
  "distinct (map fst d) \<Longrightarrow> distinct (map fst (fold (\<lambda>(k, v) d. AList.update k v d) xs d))"
  by (induction xs arbitrary: d) (auto simp: AList.distinct_update)

lemma distinct_fst_json_load: "distinct (map fst (json_load members))"
  by (simp add: json_load_def distinct_fst_fold_update)

lemma distinct_fst_loaded_dict: "distinct (map fst (loaded_dict c))"
  by (simp add: loaded_dict_def distinct_fst_json_load split: option.splits)

lemma load_hrefs_eq:
  "load_hrefs stype c =
     c\<lparr>suffix := (if stype = ''contacts'' then ''.vcf'' else ''.ics''),
       hrefs_path := os_path_join (filesystem_path c) ''.Radicale.hrefs'',
       hrefs := loaded_dict c,
       uids := fold (\<lambda>(uid, href) u. AList.update href uid u) (loaded_dict c) []\<rparr>"
  by (simp add: load_hrefs_def Let_def fold_uids_update loaded_dict_def)

lemma suffix_load_hrefs:
  "suffix (load_hrefs stype c) = (if stype = ''contacts'' then ''.vcf'' else ''.ics'')"
  by (simp add: load_hrefs_eq)

lemma suffix_set_href: "suffix (set_href uid href c) = suffix c"
  by (simp add: set_href_def atomic_write_hrefs_def Let_def)

lemma suffix_set_hrefs: "suffix (set_hrefs calls c) = suffix c"
  by (induction calls c rule: set_hrefs.induct) (simp_all add: suffix_set_href)

lemma length_suffix_reachable: "length (suffix (set_hrefs calls (load_hrefs stype c))) = 4"
  by (simp add: suffix_set_hrefs suffix_load_hrefs)

subsection \<open>One call of set_href\<close>

lemma map_of_hrefs_set_href:
  "map_of (hrefs (set_href uid href c)) =
     (if href = get_href c uid then map_of (hrefs c) else (map_of (hrefs c))(uid \<mapsto> href))"
  by (simp add: set_href_def atomic_write_hrefs_def Let_def AList.update_conv')

lemma map_of_uids_set_href:
  "map_of (uids (set_href uid href c)) =
     (if href = get_href c uid then map_of (uids c) else (map_of (uids c))(href \<mapsto> uid))"
  by (simp add: set_href_def atomic_write_hrefs_def Let_def AList.update_conv')

lemma get_href_set_href: "get_href (set_href uid href c) uid = href"
  by (auto simp: get_href_def map_of_hrefs_set_href suffix_set_href split: option.splits)

subsection \<open>The reverse table covers the forward table\<close>

lemma reverse_covers_load_hrefs: "reverse_covers (load_hrefs stype c)"
proof -
  have "map_of (rev (map (\<lambda>(uid, href). (href, uid)) xs)) href \<noteq> None"
    if "(uid, href) \<in> set xs" for xs :: "(string \<times> string) list" and uid href
  proof -
    from that have "href \<in> fst ` set (rev (map (\<lambda>(uid, href). (href, uid)) xs))"
      by force
    then show ?thesis by (simp only: map_of_eq_None_iff not_not)
  qed
  then show ?thesis
    by (auto simp: reverse_covers_def load_hrefs_eq map_of_fold_update dest!: map_of_SomeD)
qed

lemma reverse_covers_set_href: "reverse_covers c \<Longrightarrow> reverse_covers (set_href uid href c)"
  unfolding reverse_covers_def map_of_hrefs_set_href map_of_uids_set_href
  by (auto split: if_splits)

lemma reverse_covers_set_hrefs: "reverse_covers c \<Longrightarrow> reverse_covers (set_hrefs calls c)"
  by (induction calls c rule: set_hrefs.induct) (simp_all add: reverse_covers_set_href)

subsection \<open>Mutual inverse\<close>

lemma mutually_inverse_load_hrefs:
  assumes "distinct (map snd (hrefs (load_hrefs stype c)))"
  shows "mutually_inverse (load_hrefs stype c)"
proof -
  let ?H = "loaded_dict c"
  let ?S = "rev (map (\<lambda>(uid, href). (href, uid)) ?H)"
  from assms have ds: "distinct (map snd ?H)" by (simp add: load_hrefs_eq)
  have "map fst ?S = rev (map snd ?H)"
    by (simp add: rev_map case_prod_unfold)
  with ds have dS: "distinct (map fst ?S)" by simp
  have "(map_of ?H uid = Some href) = (map_of ?S href = Some uid)" for uid href
  proof -
    have "(map_of ?H uid = Some href) = ((uid, href) \<in> set ?H)"
      by (rule map_of_eq_Some_iff [OF distinct_fst_loaded_dict])
    also have "\<dots> = ((href, uid) \<in> set ?S)" by force
    also have "\<dots> = (map_of ?S href = Some uid)"
      by (rule map_of_eq_Some_iff [OF dS, symmetric])
    finally show ?thesis .
  qed
  then show ?thesis by (simp add: mutually_inverse_def load_hrefs_eq map_of_fold_update)
qed

lemma mutually_inverse_set_href:
  assumes "mutually_inverse c" and "fresh_call c uid href"
  shows "mutually_inverse (set_href uid href c)"
proof (cases "href = get_href c uid")
  case True
  then show ?thesis using assms(1) by (simp add: set_href_def)
next
  case False
  with assms(2) have u: "map_of (hrefs c) uid = None" and h: "map_of (uids c) href = None"
    by (simp_all add: fresh_call_def)
  from assms(1) have inv: "(map_of (hrefs c) a = Some b) = (map_of (uids c) b = Some a)" for a b
    by (simp add: mutually_inverse_def)
  have "(((map_of (hrefs c))(uid \<mapsto> href)) a = Some b) =
        (((map_of (uids c))(href \<mapsto> uid)) b = Some a)" for a b
    using u h inv [of a b] inv [of uid b] inv [of a href] by (auto split: if_splits)
  with False show ?thesis
    by (simp add: mutually_inverse_def map_of_hrefs_set_href map_of_uids_set_href)
qed

lemma mutually_inverse_set_hrefs:
  "mutually_inverse c \<Longrightarrow> fresh_calls calls c \<Longrightarrow> mutually_inverse (set_hrefs calls c)"
  by (induction calls c rule: set_hrefs.induct) (simp_all add: mutually_inverse_set_href)

lemma not_fresh_breaks_inverse:
  assumes "mutually_inverse c" and "\<not> fresh_call c uid href"
  shows "\<not> mutually_inverse (set_href uid href c)"
proof
  assume after: "mutually_inverse (set_href uid href c)"
  from assms(2) have ne: "href \<noteq> get_href c uid"
    and some: "map_of (hrefs c) uid \<noteq> None \<or> map_of (uids c) href \<noteq> None"
    by (auto simp: fresh_call_def)
  from assms(1) have inv: "(map_of (hrefs c) a = Some b) = (map_of (uids c) b = Some a)" for a b
    by (simp add: mutually_inverse_def)
  from after ne have inv':
    "(((map_of (hrefs c))(uid \<mapsto> href)) a = Some b) = (((map_of (uids c))(href \<mapsto> uid)) b = Some a)" for a b
    by (simp add: mutually_inverse_def map_of_hrefs_set_href map_of_uids_set_href)
  from some show False
  proof
    assume "map_of (hrefs c) uid \<noteq> None"
    then obtain h0 where h0: "map_of (hrefs c) uid = Some h0" by auto
    with ne have "h0 \<noteq> href" by (auto simp: get_href_def)
    moreover from h0 inv have "map_of (uids c) h0 = Some uid" by simp
    ultimately show False using inv' [of uid h0] by simp
  next
    assume "map_of (uids c) href \<noteq> None"
    then obtain u0 where u0: "map_of (uids c) href = Some u0" by auto
    with inv have hu: "map_of (hrefs c) u0 = Some href" by simp
    with ne have "u0 \<noteq> uid" by (auto simp: get_href_def)
    with hu show False using inv' [of u0 href] by simp
  qed
qed

subsection \<open>The small instance\<close>

lemma toy_blank_simps:
  "filesystem_path toy_blank = ''/srv/user/calendars-work''"
  "files toy_blank = Map.empty"
  "events toy_blank = []"
  "store toy_blank = ([], [])"
  "sync_type toy_blank = ''calendars''"
  by (simp_all add: toy_blank_def new_collection_def)

lemma loaded_dict_toy_blank: "loaded_dict toy_blank = []"
  by (simp add: loaded_dict_def toy_blank_simps)

lemma load_toy_blank:
  "load_hrefs ''calendars'' toy_blank =
     toy_blank\<lparr>suffix := ''.ics'', hrefs_path := ''/srv/user/calendars-work/.Radicale.hrefs'',
       hrefs := [], uids := []\<rparr>"
  by (simp add: load_hrefs_eq loaded_dict_toy_blank toy_blank_simps os_path_join_def)

subsection \<open>Injectivity of the tables\<close>

text \<open>
  Claim C3, in the form that holds of the code. In every state reached by \<open>load_hrefs\<close> from a mapping file in
  which no two uids share an href, followed by \<open>set_href\<close> calls each of which either
  asks for the href \<open>get_href\<close> already gives or names a uid with no stored href and an
  href with no stored uid, the forward table and the reverse table are inverse to each
  other on their stored entries: \<open>uid\<close> is mapped to \<open>href\<close> exactly when \<open>href\<close> is mapped
  back to \<open>uid\<close>. So no two uids share an href and no two hrefs share a uid.
\<close>

theorem tables_mutually_inverse_on_fresh_runs:
  assumes "distinct (map snd (hrefs (load_hrefs stype c0)))"
    and "fresh_calls calls (load_hrefs stype c0)"
  shows "(map_of (hrefs (set_hrefs calls (load_hrefs stype c0))) uid = Some href) =
         (map_of (uids (set_hrefs calls (load_hrefs stype c0))) href = Some uid)"
proof -
  from assms(1) have "mutually_inverse (load_hrefs stype c0)"
    by (rule mutually_inverse_load_hrefs)
  then have "mutually_inverse (set_hrefs calls (load_hrefs stype c0))"
    using assms(2) by (rule mutually_inverse_set_hrefs)
  then show ?thesis by (simp add: mutually_inverse_def)
qed

text \<open>The theorem on a run of two fresh calls.\<close>

theorem tables_mutually_inverse_on_fresh_runs_witness:
  "distinct (map snd (hrefs (load_hrefs ''calendars'' toy_blank))) \<and>
   fresh_calls [(''u1'', ''a.ics''), (''u2'', ''b.ics'')] (load_hrefs ''calendars'' toy_blank) \<and>
   (map_of (hrefs (set_hrefs [(''u1'', ''a.ics''), (''u2'', ''b.ics'')]
       (load_hrefs ''calendars'' toy_blank))) ''u1'' = Some ''a.ics'') =
   (map_of (uids (set_hrefs [(''u1'', ''a.ics''), (''u2'', ''b.ics'')]
       (load_hrefs ''calendars'' toy_blank))) ''a.ics'' = Some ''u1'')"
proof -
  have d: "distinct (map snd (hrefs (load_hrefs ''calendars'' toy_blank)))"
    by (simp add: load_toy_blank)
  have f: "fresh_calls [(''u1'', ''a.ics''), (''u2'', ''b.ics'')] (load_hrefs ''calendars'' toy_blank)"
    by (simp add: load_toy_blank fresh_call_def get_href_def set_href_def atomic_write_hrefs_def Let_def)
  from d f tables_mutually_inverse_on_fresh_runs [OF d f, of "''u1''" "''a.ics''"]
  show ?thesis by simp
qed

text \<open>
  Without those conditions the tables are not injective. Two \<open>set_href\<close> calls that
  give two uids the same href leave both uids mapped to it, and the href mapped back to
  the second only; a call that moves a uid to another href leaves the old href mapped
  back to it, so that two hrefs share the uid; and a mapping file in which two uids
  share an href is loaded as it is.
\<close>

theorem tables_not_injective_counterexample:
  "map_of (hrefs (set_hrefs [(''a'', ''x.ics''), (''b'', ''x.ics'')]
      (load_hrefs ''calendars'' toy_blank))) ''a'' = Some ''x.ics'' \<and>
   map_of (hrefs (set_hrefs [(''a'', ''x.ics''), (''b'', ''x.ics'')]
      (load_hrefs ''calendars'' toy_blank))) ''b'' = Some ''x.ics'' \<and>
   map_of (uids (set_hrefs [(''a'', ''x.ics''), (''b'', ''x.ics'')]
      (load_hrefs ''calendars'' toy_blank))) ''x.ics'' = Some ''b'' \<and>
   map_of (uids (set_hrefs [(''a'', ''x.ics''), (''a'', ''y.ics'')]
      (load_hrefs ''calendars'' toy_blank))) ''x.ics'' = Some ''a'' \<and>
   map_of (uids (set_hrefs [(''a'', ''x.ics''), (''a'', ''y.ics'')]
      (load_hrefs ''calendars'' toy_blank))) ''y.ics'' = Some ''a'' \<and>
   map_of (hrefs (set_hrefs [(''a'', ''x.ics''), (''a'', ''y.ics'')]
      (load_hrefs ''calendars'' toy_blank))) ''a'' = Some ''y.ics'' \<and>
   map_of (hrefs (load_hrefs ''calendars'' (toy_blank\<lparr>files :=
      [''/srv/user/calendars-work/.Radicale.hrefs'' \<mapsto> [(''a'', ''x.ics''), (''b'', ''x.ics'')]]\<rparr>)))
      ''a'' = Some ''x.ics'' \<and>
   map_of (hrefs (load_hrefs ''calendars'' (toy_blank\<lparr>files :=
      [''/srv/user/calendars-work/.Radicale.hrefs'' \<mapsto> [(''a'', ''x.ics''), (''b'', ''x.ics'')]]\<rparr>)))
      ''b'' = Some ''x.ics''"
  by (simp add: load_toy_blank load_hrefs_eq loaded_dict_def toy_blank_simps os_path_join_def
      json_load_def get_href_def set_href_def atomic_write_hrefs_def Let_def)

subsection \<open>Idempotence of the mapping update\<close>

text \<open>
  Claim C4. For every uid and href, \<open>set_href(uid, href)\<close> with the href that
  \<open>get_href(uid)\<close> already gives (a stored one, or the default \<open>uid + suffix\<close> when none
  is stored) changes nothing: the collection after the call is the collection before
  it, with the same tables, the same mapping file and the same list of events, so no
  write of the mapping file has been made.
\<close>

theorem set_href_current_href_is_noop:
  "href = get_href c uid \<Longrightarrow> set_href uid href c = c"
  by (simp add: set_href_def)

text \<open>The theorem at the default href of a uid with no stored href.\<close>

theorem set_href_current_href_is_noop_witness:
  "''u1.ics'' = get_href (load_hrefs ''calendars'' toy_blank) ''u1'' \<and>
   set_href ''u1'' ''u1.ics'' (load_hrefs ''calendars'' toy_blank) = load_hrefs ''calendars'' toy_blank"
proof -
  have h: "''u1.ics'' = get_href (load_hrefs ''calendars'' toy_blank) ''u1''"
    by (simp add: load_toy_blank get_href_def)
  from h set_href_current_href_is_noop [OF h] show ?thesis by simp
qed

subsection \<open>Round trip of the identifier mapping\<close>

lemma py_drop_last_append: "s \<noteq> [] \<Longrightarrow> py_drop_last (length s) (u @ s) = u"
  by (simp add: py_drop_last_def)

text \<open>
  Claim C5, in the form that holds of the code. In a state \<open>c\<close> reached by \<open>load_hrefs\<close> and \<open>set_href\<close> calls:
  after \<open>set_href(uid, href)\<close>, \<open>get_href(uid)\<close> is \<open>href\<close>, and
  \<open>get_uid(get_href(uid))\<close> is \<open>uid\<close> whenever the call changed the tables or the
  reverse table of \<open>c\<close> stored, for \<open>href\<close>, nothing or \<open>uid\<close> itself. In the freshly
  loaded mapping \<open>f\<close>, for a uid with no stored href, \<open>get_href(uid)\<close> is \<open>uid + suffix\<close>;
  and when moreover no stored entry has the href \<open>uid + suffix\<close>, \<open>get_uid(uid + suffix)\<close>
  is \<open>uid\<close>. The suffix is \<open>.vcf\<close> for contacts and \<open>.ics\<close> otherwise.
\<close>

theorem identifier_round_trip:
  assumes "f = load_hrefs stype c0" and "c = set_hrefs calls f"
  shows "get_href (set_href uid href c) uid = href \<and>
         (href \<noteq> get_href c uid \<or> map_of (uids c) href = None \<or> map_of (uids c) href = Some uid \<longrightarrow>
            get_uid (set_href uid href c) (get_href (set_href uid href c) uid) = uid) \<and>
         (map_of (hrefs f) uid = None \<longrightarrow> get_href f uid = uid @ suffix f) \<and>
         (map_of (hrefs f) uid = None \<and> map_of (uids f) (uid @ suffix f) = None \<longrightarrow>
            get_uid f (uid @ suffix f) = uid) \<and>
         suffix f = (if stype = ''contacts'' then ''.vcf'' else ''.ics'')"
proof -
  have sf: "suffix f = (if stype = ''contacts'' then ''.vcf'' else ''.ics'')"
    by (simp add: assms(1) suffix_load_hrefs)
  then have sf_ne: "suffix f \<noteq> []" by auto
  have sc: "suffix c = suffix f" by (simp add: assms(2) suffix_set_hrefs)
  have cov: "reverse_covers c"
    unfolding assms by (rule reverse_covers_set_hrefs [OF reverse_covers_load_hrefs])
  have 1: "get_href (set_href uid href c) uid = href" by (rule get_href_set_href)
  have 2: "get_uid (set_href uid href c) href = uid"
    if "href \<noteq> get_href c uid \<or> map_of (uids c) href = None \<or> map_of (uids c) href = Some uid"
  proof (cases "href = get_href c uid")
    case False
    then show ?thesis by (simp add: get_uid_def map_of_uids_set_href)
  next
    case True
    with that have r: "map_of (uids c) href = None \<or> map_of (uids c) href = Some uid" by simp
    from True have same: "set_href uid href c = c" by (simp add: set_href_def)
    have "get_uid c href = uid"
    proof (cases "map_of (hrefs c) uid")
      case None
      with True have "href = uid @ suffix c" by (simp add: get_href_def)
      with r sf_ne sc show ?thesis
        by (auto simp: get_uid_def py_drop_last_append)
    next
      case (Some h0)
      with True have "map_of (hrefs c) uid = Some href" by (simp add: get_href_def)
      with cov have "map_of (uids c) href \<noteq> None" by (auto simp: reverse_covers_def)
      with r show ?thesis by (auto simp: get_uid_def)
    qed
    with same show ?thesis by simp
  qed
  have 3: "get_href f uid = uid @ suffix f" if "map_of (hrefs f) uid = None"
    using that by (simp add: get_href_def)
  have 4: "get_uid f (uid @ suffix f) = uid"
    if "map_of (hrefs f) uid = None \<and> map_of (uids f) (uid @ suffix f) = None"
    using that sf_ne by (simp add: get_uid_def py_drop_last_append)
  from 1 2 3 4 sf show ?thesis by simp
qed

text \<open>The theorem for a call that stores a new href, and for the fresh mapping.\<close>

theorem identifier_round_trip_witness:
  "''custom.ics'' \<noteq> get_href (set_hrefs [(''u2'', ''b.ics'')] (load_hrefs ''calendars'' toy_blank)) ''u1'' \<and>
   map_of (hrefs (load_hrefs ''calendars'' toy_blank)) ''u1'' = None \<and>
   map_of (uids (load_hrefs ''calendars'' toy_blank)) ''u1.ics'' = None \<and>
   get_href (set_href ''u1'' ''custom.ics''
      (set_hrefs [(''u2'', ''b.ics'')] (load_hrefs ''calendars'' toy_blank))) ''u1'' = ''custom.ics'' \<and>
   get_uid (set_href ''u1'' ''custom.ics''
      (set_hrefs [(''u2'', ''b.ics'')] (load_hrefs ''calendars'' toy_blank))) ''custom.ics'' = ''u1'' \<and>
   get_href (load_hrefs ''calendars'' toy_blank) ''u1'' = ''u1.ics'' \<and>
   get_uid (load_hrefs ''calendars'' toy_blank) ''u1.ics'' = ''u1''"
proof -
  let ?f = "load_hrefs ''calendars'' toy_blank"
  let ?c = "set_hrefs [(''u2'', ''b.ics'')] ?f"
  note T = identifier_round_trip [OF refl refl, of "''u1''" "''custom.ics''"
      "[(''u2'', ''b.ics'')]" "''calendars''" toy_blank]
  have s: "suffix ?f = ''.ics''" by (simp add: load_toy_blank)
  have a: "''custom.ics'' \<noteq> get_href ?c ''u1''"
    by (simp add: load_toy_blank get_href_def set_href_def atomic_write_hrefs_def Let_def)
  have b: "map_of (hrefs ?f) ''u1'' = None" "map_of (uids ?f) ''u1.ics'' = None"
    by (simp_all add: load_toy_blank)
  from T have 1: "get_href (set_href ''u1'' ''custom.ics'' ?c) ''u1'' = ''custom.ics''"
    by (rule conjunct1)
  from T a have "get_uid (set_href ''u1'' ''custom.ics'' ?c)
      (get_href (set_href ''u1'' ''custom.ics'' ?c) ''u1'') = ''u1''"
    by blast
  with 1 have 2: "get_uid (set_href ''u1'' ''custom.ics'' ?c) ''custom.ics'' = ''u1''"
    by simp
  from b s have n: "map_of (hrefs ?f) ''u1'' = None \<and> map_of (uids ?f) (''u1'' @ suffix ?f) = None"
    by simp
  from T b(1) have "get_href ?f ''u1'' = ''u1'' @ suffix ?f"
    by blast
  moreover from T n have "get_uid ?f (''u1'' @ suffix ?f) = ''u1''"
    by blast
  ultimately have 3: "get_href ?f ''u1'' = ''u1.ics''" "get_uid ?f ''u1.ics'' = ''u1''"
    using s by simp_all
  from a b 1 2 3 show ?thesis by blast
qed

text \<open>
  The round trip fails where another uid holds the href. After
  \<open>set_href("b", "a.ics")\<close>, the call \<open>set_href("a", "a.ics")\<close> returns at once, since
  \<open>"a.ics"\<close> is the default href of \<open>"a"\<close>, and \<open>get_uid(get_href("a"))\<close> is \<open>"b"\<close>. And
  a mapping freshly loaded from the file \<open>{"b": "a.ics"}\<close> has no stored href for
  \<open>"a"\<close>, so that \<open>get_href("a")\<close> is \<open>"a.ics"\<close>, yet \<open>get_uid("a" + ".ics")\<close> is \<open>"b"\<close>.
\<close>

theorem identifier_round_trip_counterexample:
  "get_uid (set_href ''a'' ''a.ics'' (set_hrefs [(''b'', ''a.ics'')] (load_hrefs ''calendars'' toy_blank)))
     (get_href (set_href ''a'' ''a.ics'' (set_hrefs [(''b'', ''a.ics'')] (load_hrefs ''calendars'' toy_blank))) ''a'')
   = ''b'' \<and>
   map_of (hrefs (load_hrefs ''calendars''
      (toy_blank\<lparr>files := [''/srv/user/calendars-work/.Radicale.hrefs'' \<mapsto> [(''b'', ''a.ics'')]]\<rparr>))) ''a'' = None \<and>
   get_href (load_hrefs ''calendars''
      (toy_blank\<lparr>files := [''/srv/user/calendars-work/.Radicale.hrefs'' \<mapsto> [(''b'', ''a.ics'')]]\<rparr>))
      ''a'' = ''a.ics'' \<and>
   get_uid (load_hrefs ''calendars''
      (toy_blank\<lparr>files := [''/srv/user/calendars-work/.Radicale.hrefs'' \<mapsto> [(''b'', ''a.ics'')]]\<rparr>))
      (''a'' @ ''.ics'') = ''b''"
  by (simp add: load_toy_blank load_hrefs_eq loaded_dict_def toy_blank_simps os_path_join_def json_load_def
      get_href_def get_uid_def set_href_def atomic_write_hrefs_def Let_def)

subsection \<open>The default of the reverse lookup\<close>

text \<open>
  Claim C10. In a state reached by \<open>load_hrefs\<close> and \<open>set_href\<close> calls the suffix has
  four characters, and for every href with no stored reverse entry \<open>get_uid(href)\<close> is
  \<open>href\<close> without its last four characters, whether or not \<open>href\<close> ends with the
  suffix. For an href of at most four characters the result is the empty string, and
  for one shorter than four the result followed by the suffix is not \<open>href\<close>: the
  result is not \<open>href\<close> with the suffix stripped.
\<close>

theorem get_uid_unmapped_drops_four:
  assumes "c = set_hrefs calls (load_hrefs stype c0)" and "map_of (uids c) href = None"
  shows "get_uid c href = take (length href - 4) href \<and>
         (length href \<le> 4 \<longrightarrow> get_uid c href = []) \<and>
         (length href < 4 \<longrightarrow> get_uid c href @ suffix c \<noteq> href)"
proof -
  have l: "length (suffix c) = 4"
    unfolding assms(1) by (rule length_suffix_reachable)
  with assms(2) have g: "get_uid c href = take (length href - 4) href"
    by (simp add: get_uid_def py_drop_last_def)
  have "get_uid c href @ suffix c \<noteq> href" if "length href < 4"
  proof
    assume "get_uid c href @ suffix c = href"
    then have "length href = length (get_uid c href) + length (suffix c)"
      by (metis length_append)
    with l that show False by simp
  qed
  with g show ?thesis by simp
qed

text \<open>The theorem at the href \<open>"ab"\<close>, after one \<open>set_href\<close> call.\<close>

theorem get_uid_unmapped_drops_four_witness:
  "map_of (uids (set_hrefs [(''u1'', ''a.ics'')] (load_hrefs ''calendars'' toy_blank))) ''ab'' = None \<and>
   get_uid (set_hrefs [(''u1'', ''a.ics'')] (load_hrefs ''calendars'' toy_blank)) ''ab'' = [] \<and>
   get_uid (set_hrefs [(''u1'', ''a.ics'')] (load_hrefs ''calendars'' toy_blank)) ''ab'' @
     suffix (set_hrefs [(''u1'', ''a.ics'')] (load_hrefs ''calendars'' toy_blank)) \<noteq> ''ab''"
proof -
  let ?c = "set_hrefs [(''u1'', ''a.ics'')] (load_hrefs ''calendars'' toy_blank)"
  have n: "map_of (uids ?c) ''ab'' = None"
    by (simp add: load_toy_blank get_href_def set_href_def atomic_write_hrefs_def Let_def)
  note T = get_uid_unmapped_drops_four [OF refl n]
  have l: "length ''ab'' \<le> 4" "length ''ab'' < 4" by simp_all
  from T l(1) have 1: "get_uid ?c ''ab'' = []" by blast
  from T l(2) have 2: "get_uid ?c ''ab'' @ suffix ?c \<noteq> ''ab''" by blast
  from n 1 2 show ?thesis by blast
qed

section \<open>The mutation operations and the listeners\<close>

subsection \<open>Events of the building blocks\<close>

lemma events_set_entry: "events (set_entry p k v c) = events c @ [Set_entry p k v]"
  by (simp add: set_entry_def)

lemma events_set_href:
  "events (set_href uid href c) =
     events c @ (if href = get_href c uid then []
                 else [Atomic_write (hrefs_path c) (AList.update uid href (hrefs c))])"
  by (simp add: set_href_def atomic_write_hrefs_def Let_def)

lemma base_call_eq:
  "base_call ev f c = (fst (f (store c)), c\<lparr>store := snd (f (store c)), events := events c @ [ev]\<rparr>)"
  by (simp add: base_call_def split: prod.splits)

subsection \<open>Operations applied with forwarding disabled\<close>

lemma upload_remote:
  "upload B href item False c = base_call (Base_upload href) (base_upload B href item) c"
  by (cases "fst (base_upload B href item (store c))")
    (simp_all add: upload_def and_then_def base_call_eq)

lemma delete_remote:
  "delete B href False c = base_call (Base_delete href) (base_delete B href) c"
  by (simp add: delete_def)

lemma set_meta_all_remote:
  "set_meta_all B props False c = base_call (Base_set_meta_all props) (base_set_meta_all B props) c"
  by (simp add: set_meta_all_def)

lemma base_call_frame:
  assumes "is_set_entry ev = False"
  shows "sync_log (snd (base_call ev f c)) = sync_log c"
    and "hrefs (snd (base_call ev f c)) = hrefs c"
    and "uids (snd (base_call ev f c)) = uids c"
    and "files (snd (base_call ev f c)) = files c"
  using assms by (simp_all add: base_call_eq sync_log_def)

subsection \<open>Echo suppression\<close>

text \<open>
  Claim C1. Applying a resources entry through the resources listener, whatever its
  path, key and value and whatever the storage backend does, appends nothing to the
  sync log: the entries appended so far are the same after the listener as before it,
  in the tombstone branch and in the upsert branch. The identifier tables and the
  mapping file are unchanged as well, so \<open>set_href\<close> was not run either.
\<close>

theorem resources_listener_appends_nothing:
  "sync_log (snd (resources_listener B p datetime key val c)) = sync_log c \<and>
   hrefs (snd (resources_listener B p datetime key val c)) = hrefs c \<and>
   uids (snd (resources_listener B p datetime key val c)) = uids c \<and>
   files (snd (resources_listener B p datetime key val c)) = files c"
proof -
  have up: "snd (and_then (upload B h item False c) (\<lambda>stored c1. (Inr (), c1))) =
            snd (base_call (Base_upload h) (base_upload B h item) c)" for h item
    by (cases "fst (base_upload B h item (store c))")
      (simp_all add: upload_remote and_then_def base_call_eq)
  show ?thesis
    by (simp add: resources_listener_def Let_def delete_remote up base_call_frame
        split: sum.splits)
qed

text \<open>The theorem on a tombstone and on an upsert, for the in-memory backend.\<close>

theorem resources_listener_appends_nothing_witness:
  "sync_log (snd (resources_listener toy_backend [''u1''] ''t'' JNull (JStr ''u1:text'') toy_collection)) = [] \<and>
   sync_log (snd (resources_listener toy_backend [''u1''] ''t'' JNull JNull
      (snd (resources_listener toy_backend [''u1''] ''t'' JNull (JStr ''u1:text'') toy_collection)))) = []"
proof -
  have e: "sync_log toy_collection = []"
    by (simp add: sync_log_def toy_collection_def load_toy_blank toy_blank_simps)
  from resources_listener_appends_nothing [of toy_backend "[''u1'']" "''t''" JNull "JStr ''u1:text''" toy_collection]
    resources_listener_appends_nothing [of toy_backend "[''u1'']" "''t''" JNull JNull
      "snd (resources_listener toy_backend [''u1''] ''t'' JNull (JStr ''u1:text'') toy_collection)"]
    e
  show ?thesis by simp
qed

subsection \<open>Order of forwarding and local mutation\<close>

lemma fold_forward_meta:
  "\<exists>log. events (fold (forward_meta B) props c) = events c @ log \<and> list_all is_set_entry log"
proof (induction props arbitrary: c)
  case Nil
  show ?case by simp
next
  case (Cons kv props)
  have "\<exists>log0. events (forward_meta B kv c) = events c @ log0 \<and> list_all is_set_entry log0"
    by (cases kv) (simp add: forward_meta_def events_set_entry)
  then obtain log0 where
    l0: "events (forward_meta B kv c) = events c @ log0" "list_all is_set_entry log0"
    by blast
  from Cons.IH [of "forward_meta B kv c"] obtain log1 where
    l1: "events (fold (forward_meta B) props (forward_meta B kv c)) = events (forward_meta B kv c) @ log1"
      "list_all is_set_entry log1"
    by blast
  from l0 l1 have "events (fold (forward_meta B) (kv # props) c) = events c @ (log0 @ log1)
      \<and> list_all is_set_entry (log0 @ log1)"
    by simp
  then show ?case by blast
qed

lemma get_href_after_base_call:
  "get_href (c\<lparr>store := s, events := evs\<rparr>) uid = get_href c uid"
  by (simp add: get_href_def split: option.splits)

lemma new_events_upload:
  "new_events c (snd (upload B href item True c)) =
     Base_upload href #
       (case fst (base_upload B href item (store c)) of
          Inl e \<Rightarrow> []
        | Inr stored \<Rightarrow>
            (if href = get_href c (item_uid B stored) then []
             else [Atomic_write (hrefs_path c) (AList.update (item_uid B stored) href (hrefs c))]) @
            [Set_entry [''resources'', item_uid B stored] JNull (JStr (item_serialize B stored))])"
  by (cases "fst (base_upload B href item (store c))")
    (simp_all add: upload_def and_then_def base_call_eq Let_def new_events_def events_set_entry
      events_set_href get_href_after_base_call)

text \<open>
  Claim C2, in the form that holds of the code. Called without the marker of a remote origin, \<open>upload\<close>
  mutates the local storage first: the first event it adds is the storage write, no
  sync-log append stands before it, and the one append is made only when the storage
  write has returned an item. \<open>delete\<close> and \<open>set_meta_all\<close> forward first: \<open>delete\<close> adds
  exactly its sync-log append followed by the storage deletion, and \<open>set_meta_all\<close>
  adds its sync-log appends followed by the storage update.
\<close>

theorem forwarding_order:
  "(\<exists>rest. new_events c (snd (upload B href item True c)) = Base_upload href # rest) \<and>
   forwarded_after_mutation (new_events c (snd (upload B href item True c))) \<and>
   sync_log (snd (upload B href item True c)) =
     sync_log c @
       (case fst (base_upload B href item (store c)) of
          Inl e \<Rightarrow> []
        | Inr stored \<Rightarrow>
            [Set_entry [''resources'', item_uid B stored] JNull (JStr (item_serialize B stored))]) \<and>
   new_events c (snd (delete B (Some h) True c)) =
     [Set_entry [''resources'', get_uid c h] JNull JNull, Base_delete (Some h)] \<and>
   new_events c (snd (delete B None True c)) =
     [Set_entry [''info''] (JStr ''deleted'') (JBool True), Base_delete None] \<and>
   (\<exists>log. new_events c (snd (set_meta_all B props True c)) = log @ [Base_set_meta_all props] \<and>
      list_all is_set_entry log)"
proof -
  have 1: "\<exists>rest. new_events c (snd (upload B href item True c)) = Base_upload href # rest"
    by (simp add: new_events_upload)
  have 2: "forwarded_after_mutation (new_events c (snd (upload B href item True c)))"
    by (simp add: new_events_upload forwarded_after_mutation_def)
  have 3: "sync_log (snd (upload B href item True c)) =
     sync_log c @
       (case fst (base_upload B href item (store c)) of
          Inl e \<Rightarrow> []
        | Inr stored \<Rightarrow>
            [Set_entry [''resources'', item_uid B stored] JNull (JStr (item_serialize B stored))])"
    by (cases "fst (base_upload B href item (store c))")
      (simp_all add: upload_def and_then_def base_call_eq Let_def sync_log_def events_set_entry
        events_set_href)
  have 4: "new_events c (snd (delete B (Some h) True c)) =
     [Set_entry [''resources'', get_uid c h] JNull JNull, Base_delete (Some h)]"
    by (simp add: delete_def base_call_eq new_events_def events_set_entry Let_def)
  have 5: "new_events c (snd (delete B None True c)) =
     [Set_entry [''info''] (JStr ''deleted'') (JBool True), Base_delete None]"
    by (simp add: delete_def base_call_eq new_events_def events_set_entry Let_def)
  from fold_forward_meta [of B props c] obtain log where
    l: "events (fold (forward_meta B) props c) = events c @ log" "list_all is_set_entry log"
    by blast
  then have "new_events c (snd (set_meta_all B props True c)) = log @ [Base_set_meta_all props]"
    by (simp add: set_meta_all_def base_call_eq new_events_def Let_def)
  with l(2) have 6: "\<exists>log. new_events c (snd (set_meta_all B props True c)) =
      log @ [Base_set_meta_all props] \<and> list_all is_set_entry log"
    by blast
  from 1 2 3 4 5 6 show ?thesis by blast
qed

lemma toy_collection_simps:
  "events toy_collection = []"
  "hrefs toy_collection = []"
  "uids toy_collection = []"
  "suffix toy_collection = ''.ics''"
  "store toy_collection = ([], [])"
  "sync_type toy_collection = ''calendars''"
  "hrefs_path toy_collection = ''/srv/user/calendars-work/.Radicale.hrefs''"
  by (simp_all add: toy_collection_def load_toy_blank toy_blank_simps)

text \<open>The theorem on the deletion of an item by the in-memory backend.\<close>

theorem forwarding_order_witness:
  "new_events toy_collection (snd (delete toy_backend (Some ''a.ics'') True toy_collection)) =
     [Set_entry [''resources'', ''a''] JNull JNull, Base_delete (Some ''a.ics'')] \<and>
   forwarded_after_mutation
     (new_events toy_collection (snd (upload toy_backend ''a.ics'' (''u1'', ''u1:text'') True toy_collection)))"
proof -
  have g: "get_uid toy_collection ''a.ics'' = ''a''"
    by (simp add: get_uid_def toy_collection_simps py_drop_last_def)
  from forwarding_order [of toy_collection toy_backend "''a.ics''" "(''u1'', ''u1:text'')" "''a.ics''" "[]"] g
  show ?thesis by simp
qed

text \<open>
  As stated, with the sync-log append after the local mutation in all three operations,
  the claim fails for \<open>delete\<close> and for \<open>set_meta_all\<close>. After an upload of \<open>a.ics\<close>, its
  deletion succeeds and has appended the tombstone before the storage deleted the
  item; and a change of the display name is appended before the storage is updated.
\<close>

theorem forwarding_order_counterexample:
  "fst (delete toy_backend (Some ''a.ics'') True
      (snd (upload toy_backend ''a.ics'' (''u1'', ''u1:text'') True toy_collection))) = Inr () \<and>
   new_events (snd (upload toy_backend ''a.ics'' (''u1'', ''u1:text'') True toy_collection))
     (snd (delete toy_backend (Some ''a.ics'') True
        (snd (upload toy_backend ''a.ics'' (''u1'', ''u1:text'') True toy_collection)))) =
     [Set_entry [''resources'', ''u1''] JNull JNull, Base_delete (Some ''a.ics'')] \<and>
   \<not> forwarded_after_mutation
     (new_events (snd (upload toy_backend ''a.ics'' (''u1'', ''u1:text'') True toy_collection))
       (snd (delete toy_backend (Some ''a.ics'') True
          (snd (upload toy_backend ''a.ics'' (''u1'', ''u1:text'') True toy_collection))))) \<and>
   new_events toy_collection
     (snd (set_meta_all toy_backend [(''D:displayname'', JStr ''Work'')] True toy_collection)) =
     [Set_entry [''info''] (JStr ''name'') (JStr ''Work''),
      Base_set_meta_all [(''D:displayname'', JStr ''Work'')]] \<and>
   \<not> forwarded_after_mutation
     (new_events toy_collection
       (snd (set_meta_all toy_backend [(''D:displayname'', JStr ''Work'')] True toy_collection)))"
proof -
  let ?c1 = "snd (upload toy_backend ''a.ics'' (''u1'', ''u1:text'') True toy_collection)"
  have c1: "?c1 = toy_collection\<lparr>store := ([(''a.ics'', (''u1'', ''u1:text''))], []),
      hrefs := [(''u1'', ''a.ics'')], uids := [(''a.ics'', ''u1'')],
      files := (files toy_collection)(''/srv/user/calendars-work/.Radicale.hrefs'' \<mapsto> [(''u1'', ''a.ics'')]),
      events := [Base_upload ''a.ics'',
        Atomic_write ''/srv/user/calendars-work/.Radicale.hrefs'' [(''u1'', ''a.ics'')],
        Set_entry [''resources'', ''u1''] JNull (JStr ''u1:text'')]\<rparr>"
    by (simp add: upload_def and_then_def base_call_def toy_backend_def set_href_def get_href_def
        atomic_write_hrefs_def set_entry_def Let_def toy_collection_simps)
  have d: "delete toy_backend (Some ''a.ics'') True ?c1 =
      (Inr (), ?c1\<lparr>store := ([], []),
         events := events ?c1 @ [Set_entry [''resources'', ''u1''] JNull JNull, Base_delete (Some ''a.ics'')]\<rparr>)"
    unfolding c1
    by (simp add: delete_def base_call_def toy_backend_def get_uid_def set_entry_def Let_def)
  have m: "events (snd (set_meta_all toy_backend [(''D:displayname'', JStr ''Work'')] True toy_collection)) =
      [Set_entry [''info''] (JStr ''name'') (JStr ''Work''),
       Base_set_meta_all [(''D:displayname'', JStr ''Work'')]]"
    by (simp add: set_meta_all_def forward_meta_def base_call_def toy_backend_def set_entry_def
        Let_def toy_collection_simps)
  show ?thesis
    by (simp add: d m new_events_def forwarded_after_mutation_def toy_collection_simps)
qed

subsection \<open>Protocol violations\<close>

text \<open>
  Claim C7. A protocol violation ends the operation with an error, returned to the
  caller with the state untouched. The info listener raises for every key other than
  \<open>name\<close>, \<open>deleted\<close> and \<open>color\<close>; the resources listener raises for every path whose
  length is not 1; and \<open>create_collection\<close> called with properties raises when their
  tag is neither \<open>VADDRESSBOOK\<close> nor \<open>VCALENDAR\<close>.
\<close>

theorem protocol_violations_raise:
  "(key \<noteq> JStr ''name'' \<and> key \<noteq> JStr ''deleted'' \<and> key \<noteq> JStr ''color'' \<longrightarrow>
      info_listener B p datetime key val c =
        (Inl (case key of JStr k \<Rightarrow> Unknown_info_key k | _ \<Rightarrow> TypeError), c)) \<and>
   (length p \<noteq> 1 \<longrightarrow>
      resources_listener B p datetime key val c = (Inl (Invalid_path p), c)) \<and>
   (map_of ps ''tag'' \<noteq> Some (JStr ''VADDRESSBOOK'') \<and> map_of ps ''tag'' \<noteq> Some (JStr ''VCALENDAR'') \<longrightarrow>
      create_collection S href items (Some ps) w =
        (Inl (case map_of ps ''tag'' of Some (JStr t) \<Rightarrow> Unknown_tag t | _ \<Rightarrow> TypeError), w))"
  by (simp add: info_listener_def resources_listener_def create_collection_def)

text \<open>The theorem on an unknown key, a path of two segments and a journal tag.\<close>

theorem protocol_violations_raise_witness:
  "info_listener toy_backend [''u1'', ''x''] ''t'' (JStr ''owner'') JNull toy_collection =
     (Inl (Unknown_info_key ''owner''), toy_collection) \<and>
   resources_listener toy_backend [''u1'', ''x''] ''t'' (JStr ''owner'') JNull toy_collection =
     (Inl (Invalid_path [''u1'', ''x'']), toy_collection) \<and>
   create_collection toy_site ''/user/abc'' None (Some [(''tag'', JStr ''VJOURNAL'')]) [''user''] =
     (Inl (Unknown_tag ''VJOURNAL''), [''user''])"
proof -
  have k: "JStr ''owner'' \<noteq> JStr ''name'' \<and> JStr ''owner'' \<noteq> JStr ''deleted'' \<and>
      JStr ''owner'' \<noteq> JStr ''color''"
    by simp
  have l: "length [''u1'', ''x''] \<noteq> 1" by simp
  have t: "map_of [(''tag'', JStr ''VJOURNAL'')] ''tag'' \<noteq> Some (JStr ''VADDRESSBOOK'') \<and>
      map_of [(''tag'', JStr ''VJOURNAL'')] ''tag'' \<noteq> Some (JStr ''VCALENDAR'')"
    by simp
  note T = protocol_violations_raise [where key = "JStr ''owner''" and B = toy_backend
      and p = "[''u1'', ''x'']" and datetime = "''t''" and val = JNull and c = toy_collection
      and ps = "[(''tag'', JStr ''VJOURNAL'')]" and S = toy_site and href = "''/user/abc''"
      and items = None and w = "[''user'']"]
  from T k have 1: "info_listener toy_backend [''u1'', ''x''] ''t'' (JStr ''owner'') JNull toy_collection =
      (Inl (case JStr ''owner'' of JStr k \<Rightarrow> Unknown_info_key k | _ \<Rightarrow> TypeError), toy_collection)"
    by blast
  from T l have 2: "resources_listener toy_backend [''u1'', ''x''] ''t'' (JStr ''owner'') JNull toy_collection =
      (Inl (Invalid_path [''u1'', ''x'']), toy_collection)"
    by blast
  from T t have 3: "create_collection toy_site ''/user/abc'' None (Some [(''tag'', JStr ''VJOURNAL'')]) [''user''] =
      (Inl (case map_of [(''tag'', JStr ''VJOURNAL'')] ''tag'' of
              Some (JStr t) \<Rightarrow> Unknown_tag t | _ \<Rightarrow> TypeError), [''user''])"
    by blast
  from 1 2 3 show ?thesis by simp
qed

subsection \<open>Tombstones\<close>

text \<open>
  Claim C8. A resources entry with a null value, applied when the storage has no entry
  at the href the uid resolves to, succeeds and changes nothing: the listener returns
  without error and the collection, its storage included, is the one it was given. The
  deletion is invoked only when \<open>get(href)\<close> finds an entry, and then as a deletion of
  that href with forwarding disabled.
\<close>

theorem tombstone_of_absent_entry:
  "(base_get B (get_href c uid) (store c) = None \<longrightarrow>
      resources_listener B [uid] datetime key JNull c = (Inr (), c)) \<and>
   (base_get B (get_href c uid) (store c) \<noteq> None \<longrightarrow>
      resources_listener B [uid] datetime key JNull c = delete B (Some (get_href c uid)) False c)"
  by (simp add: resources_listener_def Let_def)

text \<open>The theorem on the empty in-memory store.\<close>

theorem tombstone_of_absent_entry_witness:
  "base_get toy_backend (get_href toy_collection ''u1'') (store toy_collection) = None \<and>
   resources_listener toy_backend [''u1''] ''t'' JNull JNull toy_collection = (Inr (), toy_collection)"
proof -
  have n: "base_get toy_backend (get_href toy_collection ''u1'') (store toy_collection) = None"
    by (simp add: toy_backend_def toy_collection_simps)
  from tombstone_of_absent_entry [of toy_backend toy_collection "''u1''" "''t''" JNull] n
  show ?thesis by blast
qed

subsection \<open>The deleted key of the info channel\<close>

text \<open>
  Claim C9. For the key \<open>deleted\<close> the info listener deletes the collection whatever
  the value of the entry is. It hands the whole collection to the deletion of the
  storage (\<open>super().delete(None)\<close>): what it returns is what that deletion returns, the
  storage afterwards is the storage that deletion leaves, and the one event added is that
  deletion; nothing is appended to the sync log. This is \<open>delete\<close> of the whole
  collection with forwarding disabled, and two entries that differ in their value only,
  such as \<open>true\<close> and \<open>false\<close>, are applied alike.
\<close>

theorem info_deleted_ignores_value:
  "info_listener B p datetime (JStr ''deleted'') val c =
     (fst (base_delete B None (store c)),
      c\<lparr>store := snd (base_delete B None (store c)),
        events := events c @ [Base_delete None]\<rparr>) \<and>
   fst (info_listener B p datetime (JStr ''deleted'') val c) = fst (base_delete B None (store c)) \<and>
   store (snd (info_listener B p datetime (JStr ''deleted'') val c)) =
     snd (base_delete B None (store c)) \<and>
   new_events c (snd (info_listener B p datetime (JStr ''deleted'') val c)) = [Base_delete None] \<and>
   sync_log (snd (info_listener B p datetime (JStr ''deleted'') val c)) = sync_log c \<and>
   info_listener B p datetime (JStr ''deleted'') val c = delete B None False c \<and>
   info_listener B p datetime (JStr ''deleted'') val c =
     info_listener B p datetime (JStr ''deleted'') (JBool False) c"
  by (simp add: info_listener_def delete_remote base_call_eq new_events_def sync_log_def)

text \<open>
  The theorem at the value \<open>false\<close>, for the in-memory backend holding one item and a
  display name: the listener returns without error and the store is empty afterwards.
\<close>

theorem info_deleted_ignores_value_witness:
  "fst (info_listener toy_backend [] ''t'' (JStr ''deleted'') (JBool False)
     (toy_collection\<lparr>store := ([(''a.ics'', (''u1'', ''u1:text''))], [(''D:displayname'', JStr ''Work'')])\<rparr>))
     = Inr () \<and>
   store (snd (info_listener toy_backend [] ''t'' (JStr ''deleted'') (JBool False)
     (toy_collection\<lparr>store := ([(''a.ics'', (''u1'', ''u1:text''))], [(''D:displayname'', JStr ''Work'')])\<rparr>)))
     = ([], []) \<and>
   new_events
     (toy_collection\<lparr>store := ([(''a.ics'', (''u1'', ''u1:text''))], [(''D:displayname'', JStr ''Work'')])\<rparr>)
     (snd (info_listener toy_backend [] ''t'' (JStr ''deleted'') (JBool False)
       (toy_collection\<lparr>store := ([(''a.ics'', (''u1'', ''u1:text''))], [(''D:displayname'', JStr ''Work'')])\<rparr>)))
     = [Base_delete None]"
proof -
  let ?c = "toy_collection\<lparr>store := ([(''a.ics'', (''u1'', ''u1:text''))], [(''D:displayname'', JStr ''Work'')])\<rparr>"
  note T = info_deleted_ignores_value [of toy_backend "[]" "''t''" "JBool False" ?c]
  have b: "base_delete toy_backend None (store ?c) = (Inr (), ([], []))"
    by (simp add: toy_backend_def)
  from T have 1: "fst (info_listener toy_backend [] ''t'' (JStr ''deleted'') (JBool False) ?c) =
      fst (base_delete toy_backend None (store ?c))"
    by blast
  from T have 2: "store (snd (info_listener toy_backend [] ''t'' (JStr ''deleted'') (JBool False) ?c)) =
      snd (base_delete toy_backend None (store ?c))"
    by blast
  from T have 3: "new_events ?c (snd (info_listener toy_backend [] ''t'' (JStr ''deleted'') (JBool False) ?c)) =
      [Base_delete None]"
    by blast
  from 1 2 3 b show ?thesis by simp
qed

section \<open>Discovery\<close>

lemma discover_child_skips_deleted:
  "py_eq (get_static_info S (decsync_dir S) stype coll ''deleted'' w) (JBool True) \<Longrightarrow>
   discover_child S p known_paths stype coll w = (Inr None, w)"
  by (simp add: discover_child_def Let_def)

lemma discover_collections_origin:
  assumes "\<And>w1. py_eq (get_static_info S (decsync_dir S) stype coll ''deleted'' w1) (JBool True)"
  shows "(stype, coll) \<notin> fst ` set (fst (discover_collections S p known_paths stype1 colls w))"
proof (induction colls arbitrary: w)
  case Nil
  show ?case by simp
next
  case (Cons c0 colls)
  obtain r w1 where dc: "discover_child S p known_paths stype1 c0 w = (r, w1)"
    by (cases "discover_child S p known_paths stype1 c0 w")
  show ?case
  proof (cases r)
    case (Inl e)
    with dc show ?thesis by simp
  next
    case (Inr oc)
    show ?thesis
    proof (cases oc)
      case None
      with dc Inr Cons.IH [of w1] show ?thesis by simp
    next
      case (Some child)
      have ne: "(stype1, c0) \<noteq> (stype, coll)"
      proof
        assume "(stype1, c0) = (stype, coll)"
        with discover_child_skips_deleted [OF assms, of p known_paths w] dc Inr Some
        show False by simp
      qed
      obtain children err w2 where
        rest: "discover_collections S p known_paths stype1 colls w1 = (children, err, w2)"
        by (cases "discover_collections S p known_paths stype1 colls w1")
      from Cons.IH [of w1] rest have "(stype, coll) \<notin> fst ` set children" by simp
      with dc Inr Some rest ne show ?thesis by auto
    qed
  qed
qed

lemma discover_sync_types_origin:
  assumes "\<And>w1. py_eq (get_static_info S (decsync_dir S) stype coll ''deleted'' w1) (JBool True)"
  shows "(stype, coll) \<notin> fst ` set (fst (discover_sync_types S p known_paths stypes w))"
proof (induction stypes arbitrary: w)
  case Nil
  show ?case by simp
next
  case (Cons t stypes)
  obtain children err w1 where
    dc: "discover_collections S p known_paths t (list_collections S (decsync_dir S) t w) w =
      (children, err, w1)"
    by (cases "discover_collections S p known_paths t (list_collections S (decsync_dir S) t w) w")
  from discover_collections_origin [OF assms, of p known_paths t
      "list_collections S (decsync_dir S) t w" w] dc
  have c: "(stype, coll) \<notin> fst ` set children" by simp
  show ?case
  proof (cases err)
    case (Some e)
    with dc c show ?thesis by simp
  next
    case None
    obtain children1 err1 w2 where
      rest: "discover_sync_types S p known_paths stypes w1 = (children1, err1, w2)"
      by (cases "discover_sync_types S p known_paths stypes w1")
    from Cons.IH [of w1] rest have "(stype, coll) \<notin> fst ` set children1" by simp
    with dc c None rest show ?thesis by auto
  qed
qed

lemma discover_remote_origin:
  assumes "\<And>w1. py_eq (get_static_info S (decsync_dir S) stype coll ''deleted'' w1) (JBool True)"
  shows "(stype, coll) \<notin> fst ` set (fst (discover_remote S p depth known_paths w))"
  using discover_sync_types_origin [OF assms, of p known_paths "[''contacts'', ''calendars'']" w]
  by (simp add: discover_remote_def Let_def)

text \<open>
  Claim C6. A collection the sync log advertises with the static info key \<open>deleted\<close>
  equal to true is never materialized by \<open>discover\<close>. In a state where the key is true,
  the turn of the loop for that collection continues at once: it creates nothing and
  leaves the state as it is. And when the key is true throughout, the collection is not
  among the origins of the new children \<open>discover\<close> yields, for every path and every
  depth.
\<close>

theorem deleted_collection_never_materialized:
  "(py_eq (get_static_info S (decsync_dir S) stype coll ''deleted'' w) (JBool True) \<longrightarrow>
      discover_child S p known_paths stype coll w = (Inr None, w)) \<and>
   ((\<forall>w1. py_eq (get_static_info S (decsync_dir S) stype coll ''deleted'' w1) (JBool True)) \<longrightarrow>
      (stype, coll) \<notin> fst ` set (fst (snd (discover S p depth w))))"
proof -
  have "(stype, coll) \<notin> fst ` set (fst (snd (discover S p depth w)))"
    if d: "\<forall>w1. py_eq (get_static_info S (decsync_dir S) stype coll ''deleted'' w1) (JBool True)"
  proof -
    from d have d1: "\<And>w1. py_eq (get_static_info S (decsync_dir S) stype coll ''deleted'' w1) (JBool True)"
      by simp
    obtain r w1 where b: "base_discover S p depth w = (r, w1)"
      by (cases "base_discover S p depth w")
    show ?thesis
    proof (cases r)
      case (Inl e)
      with b show ?thesis by (simp add: discover_def)
    next
      case (Inr collections)
      obtain children err w2 where
        dr: "discover_remote S p depth (map (collection_path S) collections) w1 = (children, err, w2)"
        by (cases "discover_remote S p depth (map (collection_path S) collections) w1")
      from discover_remote_origin [OF d1, of p depth "map (collection_path S) collections" w1] dr
      have "(stype, coll) \<notin> fst ` set children" by simp
      with b Inr dr show ?thesis by (simp add: discover_def)
    qed
  qed
  then show ?thesis by (simp add: discover_child_skips_deleted)
qed

text \<open>
  The theorem on the small site: from the root of a user with depth 1, the address book
  \<open>friends\<close> and the calendar \<open>work\<close> are created, the deleted address book \<open>old\<close> is not.
\<close>

theorem deleted_collection_never_materialized_witness:
  "(\<forall>w1. py_eq (get_static_info toy_site (decsync_dir toy_site) ''contacts'' ''old'' ''deleted'' w1)
      (JBool True)) \<and>
   discover_child toy_site ''/user'' [''user''] ''contacts'' ''old'' [''user''] = (Inr None, [''user'']) \<and>
   (''contacts'', ''old'') \<notin> fst ` set (fst (snd (discover toy_site ''/user'' ''1'' [''user'']))) \<and>
   fst (snd (discover toy_site ''/user'' ''1'' [''user''])) =
     [((''contacts'', ''friends''), ''user/contacts-friends''),
      ((''calendars'', ''work''), ''user/calendars-work'')]"
proof -
  have d: "\<forall>w1. py_eq (get_static_info toy_site (decsync_dir toy_site) ''contacts'' ''old'' ''deleted'' w1) (JBool True)"
    by (simp add: toy_site_def)
  note T = deleted_collection_never_materialized [of toy_site "''contacts''" "''old''" "[''user'']"
      "''/user''" "[''user'']" "''1''"]
  from d have 0: "py_eq (get_static_info toy_site (decsync_dir toy_site) ''contacts'' ''old'' ''deleted'' [''user'']) (JBool True)"
    by blast
  from T 0 have 1: "discover_child toy_site ''/user'' [''user''] ''contacts'' ''old'' [''user''] = (Inr None, [''user''])"
    by blast
  from T d have 2: "(''contacts'', ''old'') \<notin> fst ` set (fst (snd (discover toy_site ''/user'' ''1'' [''user''])))"
    by blast
  have 3: "fst (snd (discover toy_site ''/user'' ''1'' [''user''])) =
     [((''contacts'', ''friends''), ''user/contacts-friends''),
      ((''calendars'', ''work''), ''user/calendars-work'')]"
    by (simp add: discover_def discover_remote_def discover_child_def child_props_def and_then_def
        get_attributes_from_path_def py_strip_def toy_site_def Let_def)
  from d 1 2 3 show ?thesis by blast
qed

end
